theory Spec2Isabelle
  imports Complex_Main "HOL-Library.Word" "HOL-Library.AList"
begin

unbundle bit_operations_syntax

section \<open>Group flags\<close>

text \<open>
  \<^verbatim>\<open>Clipping.Groups\<close> is a \<^verbatim>\<open>BitFlags<Flag>\<close>: a number used through the bitwise
  operators, which work on 32-bit integers. The enumeration \<^verbatim>\<open>Flag\<close> is a
  \<^verbatim>\<open>const enum\<close> of numeric constants.
\<close>

type_synonym groups = "32 word"

definition Flag_None :: groups where "Flag_None = 0x0"
definition Flag_One :: groups where "Flag_One = 0x1"
definition Flag_Two :: groups where "Flag_Two = 0x2"
definition Flag_Three :: groups where "Flag_Three = 0x4"
definition Flag_Four :: groups where "Flag_Four = 0x8"
definition Flag_Five :: groups where "Flag_Five = 0x10"
definition Flag_Six :: groups where "Flag_Six = 0x20"

text \<open>
  Modelled from the spec: \<^verbatim>\<open>BitFlags.has\<close> (module \<^verbatim>\<open>mol-util/bit-flags\<close>, not among the
  sources), to which \<^verbatim>\<open>Groups.is\<close> is bound. The spec describes it as the bitwise test
  of a bit in the flags.
\<close>

definition "is" :: "groups \<Rightarrow> groups \<Rightarrow> bool" where
  "is g f = (g AND f \<noteq> 0)"

text \<open>
  Modelled from the spec: \<^verbatim>\<open>BitFlags.create\<close> (same module), called by
  \<^verbatim>\<open>Groups.create\<close>. The spec describes it as wrapping the raw bit pattern.
\<close>

definition create :: "groups \<Rightarrow> groups" where
  "create flags = flags"

text \<open>The table \<^verbatim>\<open>Names\<close>, in the order of its keys.\<close>

definition Names :: "(string \<times> groups) list" where
  "Names =
    [(''one'', Flag_One), (''two'', Flag_Two), (''three'', Flag_Three),
     (''four'', Flag_Four), (''five'', Flag_Five), (''six'', Flag_Six)]"

text \<open>
  \<^verbatim>\<open>fromName\<close> is a \<^verbatim>\<open>switch\<close> over the six names with no \<^verbatim>\<open>default\<close> branch and no
  \<^verbatim>\<open>throw\<close>: on any other string control falls off the end of the function, which
  returns \<^verbatim>\<open>undefined\<close> (here \<open>None\<close>). The parameter type \<^verbatim>\<open>Names\<close> excludes such
  strings statically only.
\<close>

definition fromName :: "string \<Rightarrow> groups option" where
  "fromName name =
    (if name = ''one'' then Some Flag_One
     else if name = ''two'' then Some Flag_Two
     else if name = ''three'' then Some Flag_Three
     else if name = ''four'' then Some Flag_Four
     else if name = ''five'' then Some Flag_Five
     else if name = ''six'' then Some Flag_Six
     else None)"

text \<open>
  \<^verbatim>\<open>f |= v\<close>: the operands are converted to 32-bit integers first, and \<^verbatim>\<open>undefined\<close>
  converts to 0.
\<close>

definition or_assign :: "groups \<Rightarrow> groups option \<Rightarrow> groups" where
  "or_assign f v = (case v of None \<Rightarrow> f OR 0 | Some b \<Rightarrow> f OR b)"

text \<open>The loop of \<^verbatim>\<open>fromNames\<close>, from the current value of \<^verbatim>\<open>f\<close>.\<close>

fun fromNames_loop :: "groups \<Rightarrow> string list \<Rightarrow> groups" where
  "fromNames_loop f [] = f"
| "fromNames_loop f (name # names) = fromNames_loop (or_assign f (fromName name)) names"

definition fromNames :: "string list \<Rightarrow> groups" where
  "fromNames names = fromNames_loop Flag_None names"

definition toNames :: "groups \<Rightarrow> string list" where
  "toNames groups =
    (let names = [];
         names = (if is groups Flag_One then names @ [''one''] else names);
         names = (if is groups Flag_Two then names @ [''two''] else names);
         names = (if is groups Flag_Three then names @ [''three''] else names);
         names = (if is groups Flag_Four then names @ [''four''] else names);
         names = (if is groups Flag_Five then names @ [''five''] else names);
         names = (if is groups Flag_Six then names @ [''six''] else names)
     in names)"

section \<open>The selection substrate\<close>

text \<open>
  The structures and the structural-element selections come from \<^verbatim>\<open>mol-model\<close>, which
  is not among the sources. The spec describes a selection as an opaque set of
  structural elements bound to a structure identity, to be thought of as a pair of an
  element set and a structure handle, and lists the operations the clipping code calls.
  Elements are identified by natural numbers here.
\<close>

text \<open>
  Modelled from the spec: the class \<^verbatim>\<open>Structure\<close>. A structure has an identity and a
  set of elements that can be expressed against it; a derived structure refers to the
  structure it was derived from.
\<close>

datatype Structure = Structure (sid: nat) (members: "nat set") (parent: "Structure option")

text \<open>
  Modelled from the spec: the property \<^verbatim>\<open>structure.root\<close>, the canonical structure
  that a structure was derived from, itself when it was not derived.
\<close>

fun root :: "Structure \<Rightarrow> Structure" where
  "root (Structure i m None) = Structure i m None"
| "root (Structure i m (Some p)) = root p"

text \<open>
  Modelled from the spec: the type \<^verbatim>\<open>StructureElement.Loci\<close>, a set of elements with
  the structure it is bound to.
\<close>

record loci =
  "structure" :: Structure
  elements :: "nat set"

text \<open>Modelled from the spec: \<^verbatim>\<open>StructureElement.Loci.none\<close>, the empty selection of a structure.\<close>

definition Loci_none :: "Structure \<Rightarrow> loci" where
  "Loci_none s = \<lparr>structure = s, elements = {}\<rparr>"

text \<open>Modelled from the spec: \<^verbatim>\<open>StructureElement.Loci.isEmpty\<close>, whether no element is selected.\<close>

definition Loci_isEmpty :: "loci \<Rightarrow> bool" where
  "Loci_isEmpty l = (elements l = {})"

text \<open>
  Modelled from the spec: \<^verbatim>\<open>StructureElement.Loci.union\<close>, the set union, bound to the
  structure of the first argument.
\<close>

definition Loci_union :: "loci \<Rightarrow> loci \<Rightarrow> loci" where
  "Loci_union xs ys = \<lparr>structure = structure xs, elements = elements xs \<union> elements ys\<rparr>"

text \<open>
  Modelled from the spec: \<^verbatim>\<open>StructureElement.Loci.subtract\<close>, the set difference, bound
  to the structure of the first argument.
\<close>

definition Loci_subtract :: "loci \<Rightarrow> loci \<Rightarrow> loci" where
  "Loci_subtract xs ys = \<lparr>structure = structure xs, elements = elements xs - elements ys\<rparr>"

text \<open>
  Modelled from the spec: \<^verbatim>\<open>StructureElement.Loci.remap\<close>, the same element set
  re-expressed against the given structure: the elements that exist there, bound to it.
\<close>

definition Loci_remap :: "loci \<Rightarrow> Structure \<Rightarrow> loci" where
  "Loci_remap l s = \<lparr>structure = s, elements = elements l \<inter> members s\<rparr>"

text \<open>
  Modelled from the spec: \<^verbatim>\<open>Loci.areEqual\<close>, equality of two selections bound to a
  structure identity: the same structure and the same elements.
\<close>

definition Loci_areEqual :: "loci \<Rightarrow> loci \<Rightarrow> bool" where
  "Loci_areEqual a b = (structure a = structure b \<and> elements a = elements b)"

text \<open>
  Modelled from the spec: the type \<^verbatim>\<open>StructureElement.Bundle\<close>, a structure-independent
  serialisation of a selection: its element set.
\<close>

type_synonym Bundle = "nat set"

text \<open>Modelled from the spec: \<^verbatim>\<open>StructureElement.Bundle.fromLoci\<close>, serialising a selection.\<close>

definition Bundle_fromLoci :: "loci \<Rightarrow> Bundle" where
  "Bundle_fromLoci l = elements l"

text \<open>
  Modelled from the spec: \<^verbatim>\<open>StructureElement.Bundle.toLoci\<close>, resolving a bundle against
  a structure into a selection bound to that structure.
\<close>

definition Bundle_toLoci :: "Bundle \<Rightarrow> Structure \<Rightarrow> loci" where
  "Bundle_toLoci b s = \<lparr>structure = s, elements = b \<inter> members s\<rparr>"

section \<open>The clipping aggregate\<close>

datatype variant = Instance | Pixel

text \<open>
  A JavaScript array of values: a slot holds a value or \<^verbatim>\<open>undefined\<close> (\<open>None\<close>).
  Reading past the end gives \<^verbatim>\<open>undefined\<close>; assigning past the end extends the array,
  the slots in between being holes.
\<close>

type_synonym 'a js_array = "'a option list"

definition array_get :: "'a js_array \<Rightarrow> nat \<Rightarrow> 'a option" where
  "array_get xs i = (if i < length xs then xs ! i else None)"

definition array_set :: "'a js_array \<Rightarrow> nat \<Rightarrow> 'a option \<Rightarrow> 'a js_array" where
  "array_set xs i v =
    (if i < length xs then xs[i := v] else xs @ replicate (i - length xs) None @ [v])"

record objects =
  count :: nat
  type :: "nat js_array"
  invert :: "bool js_array"
  position :: "real js_array"
  rotation :: "real js_array"
  scale :: "real js_array"

record layer =
  loci :: loci
  groups :: groups

record clipping =
  layers :: "layer list"
  variant :: variant
  objects :: objects

definition createClipObjects :: objects where
  "createClipObjects =
    \<lparr>count = 0,
     type = replicate 5 (Some 1),
     invert = replicate 5 (Some False),
     position = replicate (5 * 3) (Some 0),
     rotation = replicate (5 * 4) (Some 0),
     scale = replicate (5 * 3) (Some 1)\<rparr>"

definition Empty :: clipping where
  "Empty = \<lparr>layers = [], variant = Pixel, objects = createClipObjects\<rparr>"

text \<open>Clip object types: the table \<^verbatim>\<open>Type\<close>.\<close>

definition Type :: "(string \<times> nat) list" where
  "Type =
    [(''none'', 0), (''plane'', 1), (''sphere'', 2), (''cube'', 3), (''cylinder'', 4),
     (''infiniteCone'', 5)]"

section \<open>Compiling the clip primitives\<close>

type_synonym vec3 = "real \<times> real \<times> real"
type_synonym quat = "real \<times> real \<times> real \<times> real"

text \<open>
  The vector and quaternion primitives come from \<^verbatim>\<open>mol-math\<close>, which is not among the
  sources. Numbers are real numbers here, so there is no NaN and no rounding.
\<close>

text \<open>Modelled from the spec: \<^verbatim>\<open>degToRad\<close>, converting an angle from degrees to radians.\<close>

definition degToRad :: "real \<Rightarrow> real" where
  "degToRad deg = deg * pi / 180"

text \<open>
  Modelled from the spec: \<^verbatim>\<open>Quat.setAxisAngle\<close>, building the quaternion of the rotation
  by an angle (in radians) about an axis, with no normalisation of the axis: the vector
  part is the axis scaled by the sine of half the angle, the scalar part the cosine of
  half the angle; its components are ordered x, y, z, w.
\<close>

definition Quat_setAxisAngle :: "vec3 \<Rightarrow> real \<Rightarrow> quat" where
  "Quat_setAxisAngle ax rad =
    (case ax of (x, y, z) \<Rightarrow>
      (sin (rad * 0.5) * x, sin (rad * 0.5) * y, sin (rad * 0.5) * z, cos (rad * 0.5)))"

text \<open>
  Modelled from the spec: \<^verbatim>\<open>Vec3.toArray\<close>, writing the three components into the flat
  array at the offset and the two slots after it.
\<close>

definition Vec3_toArray :: "vec3 \<Rightarrow> real js_array \<Rightarrow> nat \<Rightarrow> real js_array" where
  "Vec3_toArray v out offset =
    (case v of (x, y, z) \<Rightarrow>
      array_set (array_set (array_set out (offset + 0) (Some x)) (offset + 1) (Some y))
        (offset + 2) (Some z))"

text \<open>
  Modelled from the spec: \<^verbatim>\<open>Quat.toArray\<close>, writing the four components into the flat
  array at the offset and the three slots after it.
\<close>

definition Quat_toArray :: "quat \<Rightarrow> real js_array \<Rightarrow> nat \<Rightarrow> real js_array" where
  "Quat_toArray q out offset =
    (case q of (x, y, z, w) \<Rightarrow>
      array_set (array_set (array_set (array_set out (offset + 0) (Some x))
        (offset + 1) (Some y)) (offset + 2) (Some z)) (offset + 3) (Some w))"

text \<open>
  Modelled from the spec: \<^verbatim>\<open>Vec3.fromArray\<close>, reading three components from the flat
  array at the offset.
\<close>

definition Vec3_fromArray :: "real js_array \<Rightarrow> nat \<Rightarrow> real option list" where
  "Vec3_fromArray array offset =
    [array_get array (offset + 0), array_get array (offset + 1), array_get array (offset + 2)]"

text \<open>
  Modelled from the spec: \<^verbatim>\<open>Quat.fromArray\<close>, reading four components from the flat
  array at the offset.
\<close>

definition Quat_fromArray :: "real js_array \<Rightarrow> nat \<Rightarrow> real option list" where
  "Quat_fromArray array offset =
    [array_get array (offset + 0), array_get array (offset + 1), array_get array (offset + 2),
     array_get array (offset + 3)]"

text \<open>
  Modelled from the spec: \<^verbatim>\<open>Vec3.equals\<close>, componentwise equality of two vectors, exact
  and with no tolerance.
\<close>

definition Vec3_equals :: "real option list \<Rightarrow> real option list \<Rightarrow> bool" where
  "Vec3_equals a b = (a = b)"

text \<open>
  Modelled from the spec: \<^verbatim>\<open>Quat.equals\<close>, componentwise equality of two quaternions,
  exact and not up to sign.
\<close>

definition Quat_equals :: "real option list \<Rightarrow> real option list \<Rightarrow> bool" where
  "Quat_equals a b = (a = b)"

text \<open>The parameter values \<^verbatim>\<open>Props\<close>: the variant and the list of clip objects.\<close>

record rotation_params =
  axis :: vec3
  angle :: real

record clip_object =
  p_type :: string
  p_invert :: bool
  p_position :: vec3
  p_rotation :: rotation_params
  p_scale :: vec3

record props =
  props_variant :: variant
  props_objects :: "clip_object list"

record clip =
  clip_variant :: variant
  clip_objects :: objects

text \<open>
  The loop of \<^verbatim>\<open>getClip\<close> from index \<open>i\<close> on, over the remaining objects. The five
  arrays are those of the record; \<^verbatim>\<open>Type[p.type]\<close> is a lookup in the table.
\<close>

fun getClip_loop :: "clip_object list \<Rightarrow> nat \<Rightarrow> objects \<Rightarrow> objects" where
  "getClip_loop [] i ob = ob"
| "getClip_loop (p # ps) i ob =
    getClip_loop ps (i + 1)
      (ob\<lparr>type := array_set (type ob) i (map_of Type (p_type p)),
          invert := array_set (invert ob) i (Some (p_invert p)),
          position := Vec3_toArray (p_position p) (position ob) (i * 3),
          rotation :=
            Quat_toArray
              (Quat_setAxisAngle (axis (p_rotation p)) (degToRad (angle (p_rotation p))))
              (rotation ob) (i * 4),
          scale := Vec3_toArray (p_scale p) (scale ob) (i * 3)\<rparr>)"

definition getClip :: "props \<Rightarrow> clip option \<Rightarrow> clip" where
  "getClip props clip =
    (let ob = getClip_loop (props_objects props) 0
                (case clip of Some c \<Rightarrow> clip_objects c | None \<Rightarrow> createClipObjects)
     in \<lparr>clip_variant = props_variant props,
         clip_objects = ob\<lparr>count := length (props_objects props)\<rparr>\<rparr>)"

section \<open>Equality and emptiness\<close>

definition areEqual :: "clipping \<Rightarrow> clipping \<Rightarrow> bool" where
  "areEqual cA cB =
    (if length (layers cA) \<noteq> length (layers cB) then False
     else if \<not> list_all (\<lambda>i. groups (layers cA ! i) = groups (layers cB ! i) \<and>
                Loci_areEqual (loci (layers cA ! i)) (loci (layers cB ! i)))
              [0..<length (layers cA)] then False
     else if variant cA \<noteq> variant cB then False
     else if count (objects cA) \<noteq> count (objects cB) then False
     else
       (let oA = objects cA; oB = objects cB
        in list_all (\<lambda>i.
             array_get (invert oA) i = array_get (invert oB) i \<and>
             array_get (type oA) i = array_get (type oB) i \<and>
             Vec3_equals (Vec3_fromArray (position oA) (i * 3))
               (Vec3_fromArray (position oB) (i * 3)) \<and>
             Vec3_equals (Vec3_fromArray (scale oA) (i * 3))
               (Vec3_fromArray (scale oB) (i * 3)) \<and>
             Quat_equals (Quat_fromArray (rotation oA) (i * 4))
               (Quat_fromArray (rotation oB) (i * 4)))
           [0..<count oA]))"

definition isEmpty :: "clipping \<Rightarrow> bool" where
  "isEmpty clipping = (length (layers clipping) = 0)"

section \<open>The layer algebra\<close>

text \<open>The loop of \<^verbatim>\<open>remap\<close>: the layers pushed for the remaining input layers.\<close>

fun remap_layers :: "layer list \<Rightarrow> Structure \<Rightarrow> layer list" where
  "remap_layers [] s = []"
| "remap_layers (layer # rest) s =
    (let l = Loci_remap (loci layer) s
     in if \<not> Loci_isEmpty l then \<lparr>loci = l, groups = groups layer\<rparr> # remap_layers rest s
        else remap_layers rest s)"

definition remap :: "clipping \<Rightarrow> Structure \<Rightarrow> clipping" where
  "remap clipping s =
    \<lparr>layers = remap_layers (layers clipping) s, variant = variant clipping,
     objects = objects clipping\<rparr>"

text \<open>
  The loop of \<^verbatim>\<open>merge\<close>. It reads \<^verbatim>\<open>layers[il - i - 1]\<close>, so the first argument is
  the list of layers still to process, last layer of the input first. The \<^verbatim>\<open>Map\<close> is
  an association list in insertion order: \<^verbatim>\<open>set\<close> on a key already present replaces
  its value in place, on a new key appends an entry, and \<^verbatim>\<open>forEach\<close> visits the
  entries in that order.
\<close>

type_synonym groups_map = "(groups \<times> loci) list"

fun merge_loop :: "layer list \<Rightarrow> groups_map \<Rightarrow> loci \<Rightarrow> groups_map" where
  "merge_loop [] m shadowed = m"
| "merge_loop (layer # rest) m shadowed =
    (let l = Loci_subtract (loci layer) shadowed;
         shadowed' = Loci_union l shadowed
     in if \<not> Loci_isEmpty l
        then merge_loop rest
               (AList.update (groups layer)
                  (case map_of m (groups layer) of
                     Some prev \<Rightarrow> Loci_union l prev
                   | None \<Rightarrow> l) m)
               shadowed'
        else merge_loop rest m shadowed')"

definition merge :: "clipping \<Rightarrow> clipping" where
  "merge clipping =
    (if isEmpty clipping then clipping
     else
       \<lparr>layers =
          map (\<lambda>(g, l). \<lparr>loci = l, groups = g\<rparr>)
            (merge_loop (rev (layers clipping)) []
               (Loci_none (structure (loci (layers clipping ! 0))))),
        variant = variant clipping, objects = objects clipping\<rparr>)"

text \<open>The loop of \<^verbatim>\<open>filter\<close>, with the structure of the first layer's selection.\<close>

fun filter_layers :: "layer list \<Rightarrow> Structure \<Rightarrow> Structure \<Rightarrow> layer list" where
  "filter_layers [] flt s = []"
| "filter_layers (layer # rest) flt s =
    (let filtered = Loci_remap (loci layer) flt;
         l = Loci_remap filtered s
     in if \<not> Loci_isEmpty l then \<lparr>loci = l, groups = groups layer\<rparr> # filter_layers rest flt s
        else filter_layers rest flt s)"

definition filter_clipping :: "clipping \<Rightarrow> Structure \<Rightarrow> clipping" where
  "filter_clipping clipping flt =
    (if isEmpty clipping then clipping
     else
       \<lparr>layers =
          filter_layers (layers clipping) flt (structure (loci (layers clipping ! 0))),
        variant = variant clipping, objects = objects clipping\<rparr>)"

section \<open>Bundles\<close>

record bundle_layer =
  "bundle" :: Bundle
  b_groups :: groups

text \<open>The object returned by \<^verbatim>\<open>toBundle\<close>, with its one field \<^verbatim>\<open>layers\<close>.\<close>

record bundle_layers =
  b_layers :: "bundle_layer list"

definition ofBundle :: "bundle_layer list \<Rightarrow> Structure \<Rightarrow> clip \<Rightarrow> clipping" where
  "ofBundle bundleLayers s clip =
    \<lparr>layers =
       map (\<lambda>bl. \<lparr>loci = Bundle_toLoci (bundle bl) (root s), groups = b_groups bl\<rparr>)
         bundleLayers,
     variant = clip_variant clip, objects = clip_objects clip\<rparr>"

definition toBundle :: "clipping \<Rightarrow> bundle_layers" where
  "toBundle clipping =
    \<lparr>b_layers =
       map (\<lambda>layer. \<lparr>bundle = Bundle_fromLoci (loci layer), b_groups = groups layer\<rparr>)
         (layers clipping)\<rparr>"

section \<open>Notions used in the statements\<close>

text \<open>
  The owner of an element in a list of layers: the groups of the last layer of the list
  whose selection contains the element, if there is one.
\<close>

definition owner :: "layer list \<Rightarrow> nat \<Rightarrow> groups option" where
  "owner ls e = map_option groups (find (\<lambda>l. e \<in> elements (loci l)) (rev ls))"

text \<open>
  For the loop of \<^verbatim>\<open>merge\<close>: the elements that the layers still to process win for a
  groups key, given the elements shadowed so far.
\<close>

definition won :: "groups \<Rightarrow> layer list \<Rightarrow> nat set \<Rightarrow> nat set" where
  "won g rs sh =
    {e. e \<notin> sh \<and> map_option groups (find (\<lambda>l. e \<in> elements (loci l)) rs) = Some g}"

text \<open>The element set stored in the map for a groups key.\<close>

definition sel :: "groups_map \<Rightarrow> groups \<Rightarrow> nat set option" where
  "sel m g = map_option elements (map_of m g)"

text \<open>The map that \<^verbatim>\<open>merge\<close> has built when its loop ends.\<close>

definition merge_map :: "clipping \<Rightarrow> groups_map" where
  "merge_map c = merge_loop (rev (layers c)) [] (Loci_none (structure (loci (layers c ! 0))))"

text \<open>A clipping aggregate read as the \<^verbatim>\<open>Clip\<close> it structurally is.\<close>

definition as_clip :: "clipping \<Rightarrow> clip" where
  "as_clip c = \<lparr>clip_variant = variant c, clip_objects = objects c\<rparr>"

section \<open>Example inputs\<close>

definition example_structure :: Structure where
  "example_structure = Structure 0 {1, 2, 3} None"

definition example_child :: Structure where
  "example_child = Structure 1 {1, 2} (Some example_structure)"

text \<open>Two layers of different groups whose selections share the element 2.\<close>

definition overlapping_layers :: clipping where
  "overlapping_layers =
    \<lparr>layers =
       [\<lparr>loci = \<lparr>structure = example_structure, elements = {1, 2}\<rparr>, groups = Flag_One\<rparr>,
        \<lparr>loci = \<lparr>structure = example_structure, elements = {2, 3}\<rparr>, groups = Flag_Two\<rparr>],
     variant = Pixel, objects = createClipObjects\<rparr>"

text \<open>Two layers of different groups, the later one covering the earlier one.\<close>

definition shadowed_layers :: clipping where
  "shadowed_layers =
    \<lparr>layers =
       [\<lparr>loci = \<lparr>structure = example_structure, elements = {1}\<rparr>, groups = Flag_One\<rparr>,
        \<lparr>loci = \<lparr>structure = example_structure, elements = {1, 2}\<rparr>, groups = Flag_Two\<rparr>],
     variant = Pixel, objects = createClipObjects\<rparr>"




text \<open>One layer bound to a derived structure, and one bound to a root structure.\<close>

definition child_layers :: clipping where
  "child_layers =
    \<lparr>layers = [\<lparr>loci = \<lparr>structure = example_child, elements = {1}\<rparr>, groups = Flag_One\<rparr>],
     variant = Pixel, objects = createClipObjects\<rparr>"

definition root_layers :: clipping where
  "root_layers =
    \<lparr>layers = [\<lparr>loci = \<lparr>structure = example_structure, elements = {1}\<rparr>, groups = Flag_One\<rparr>],
     variant = Pixel, objects = createClipObjects\<rparr>"

text \<open>The clip object of the compile scenario, and a list of six clip objects.\<close>

definition plane_object :: clip_object where
  "plane_object =
    \<lparr>p_type = ''plane'', p_invert = False, p_position = (0, 0, 0),
     p_rotation = \<lparr>axis = (1, 0, 0), angle = 0\<rparr>, p_scale = (1, 1, 1)\<rparr>"

definition six_objects :: "clip_object list" where
  "six_objects = replicate 5 plane_object @ [plane_object\<lparr>p_type := ''sphere''\<rparr>]"

section \<open>Group names\<close>

lemmas Flag_defs =
  Flag_None_def Flag_One_def Flag_Two_def Flag_Three_def Flag_Four_def Flag_Five_def Flag_Six_def

lemma fromNames_loop_snoc:
  "fromNames_loop f (names @ [name]) = or_assign (fromNames_loop f names) (fromName name)"
  by (induction names arbitrary: f) simp_all

lemma and_single_bit: "(x :: groups) AND 2 ^ k \<noteq> 0 \<Longrightarrow> x AND 2 ^ k = 2 ^ k"
  apply (rule bit_eqI)
  apply (auto simp: bit_and_iff bit_exp_iff and_exp_eq_0_iff_not_bit)
  done

text \<open>One conditional \<^verbatim>\<open>push\<close> of \<^verbatim>\<open>toNames\<close>, seen through the loop of \<^verbatim>\<open>fromNames\<close>.\<close>

lemma cond_push:
  assumes "fromName name = Some (2 ^ k)"
  shows "fromNames_loop f (if is x (2 ^ k) then names @ [name] else names)
       = fromNames_loop f names OR (x AND 2 ^ k)"
  using assms and_single_bit [of x k]
  by (auto simp: fromNames_loop_snoc or_assign_def is_def)

lemma Flag_pow:
  "Flag_One = 2 ^ 0" "Flag_Two = 2 ^ 1" "Flag_Three = 2 ^ 2" "Flag_Four = 2 ^ 3"
  "Flag_Five = 2 ^ 4" "Flag_Six = 2 ^ 5"
  by (simp_all add: Flag_defs)

lemma fromName_pow:
  "fromName ''one'' = Some (2 ^ 0)" "fromName ''two'' = Some (2 ^ 1)"
  "fromName ''three'' = Some (2 ^ 2)" "fromName ''four'' = Some (2 ^ 3)"
  "fromName ''five'' = Some (2 ^ 4)" "fromName ''six'' = Some (2 ^ 5)"
  by (simp_all add: fromName_def Flag_defs)

text \<open>On any 32-bit value the round trip keeps exactly the six defined bits.\<close>

lemma fromNames_toNames_mask: "fromNames (toNames x) = x AND 0x3F"
proof -
  have "fromNames (toNames x) =
    Flag_None OR (x AND 2 ^ 0) OR (x AND 2 ^ 1) OR (x AND 2 ^ 2) OR (x AND 2 ^ 3)
      OR (x AND 2 ^ 4) OR (x AND 2 ^ 5)"
    unfolding fromNames_def toNames_def Let_def Flag_pow
    by (simp only: cond_push [OF fromName_pow(6)] cond_push [OF fromName_pow(5)]
        cond_push [OF fromName_pow(4)] cond_push [OF fromName_pow(3)]
        cond_push [OF fromName_pow(2)] cond_push [OF fromName_pow(1)]
        fromNames_loop.simps or.assoc)
  also have "\<dots> = x AND 0x3F"
    by (simp add: Flag_None_def bit.conj_disj_distrib [symmetric])
  finally show ?thesis .
qed

lemma toNames_filter:
  "toNames x = map fst (filter (\<lambda>(n, f). is x f) Names)"
  by (simp add: toNames_def Names_def Let_def)

lemma defined_bits_mask:
  "set fs \<subseteq> snd ` set Names \<Longrightarrow> foldr (OR) fs Flag_None AND 0x3F = foldr (OR) fs Flag_None"
proof (induction fs)
  case Nil
  then show ?case by (simp add: Flag_None_def)
next
  case (Cons f fs)
  then have "f AND 0x3F = f"
    by (auto simp: Names_def Flag_defs)
  with Cons show ?case
    by (simp add: bit.conj_disj_distrib2)
qed

text \<open>
  C6: for every value \<open>x\<close> that is the bitwise OR of a list \<open>fs\<close> of the six defined
  bits (the empty list gives \<^verbatim>\<open>Flag.None\<close>), \<^verbatim>\<open>fromNames(toNames(x))\<close> is \<open>x\<close>, and
  \<^verbatim>\<open>toNames(x)\<close> lists, in the order one, two, three, four, five, six of the table
  \<^verbatim>\<open>Names\<close>, the names whose bit is set in \<open>x\<close>.
\<close>

theorem groups_round_trip:
  assumes "set fs \<subseteq> snd ` set Names" and "x = foldr (OR) fs Flag_None"
  shows "fromNames (toNames x) = x \<and> toNames x = map fst (filter (\<lambda>(n, f). is x f) Names)"
  using defined_bits_mask [OF assms(1)] assms(2)
  by (simp add: fromNames_toNames_mask toNames_filter [symmetric])

theorem groups_round_trip_witness:
  "set [Flag_Three, Flag_One] \<subseteq> snd ` set Names \<and>
   (5 :: groups) = foldr (OR) [Flag_Three, Flag_One] Flag_None \<and>
   fromNames (toNames 5) = 5 \<and> toNames 5 = [''one'', ''three'']"
proof -
  have 1: "set [Flag_Three, Flag_One] \<subseteq> snd ` set Names"
    by (simp add: Names_def)
  have 2: "(5 :: groups) = foldr (OR) [Flag_Three, Flag_One] Flag_None"
    by (simp add: Flag_defs)
  have 3: "map fst (filter (\<lambda>(n, f). is (5 :: groups) f) Names) = [''one'', ''three'']"
    by (simp add: Names_def is_def Flag_defs)
  from groups_round_trip [OF 1 2]
  have a: "fromNames (toNames 5) = 5"
    and b: "toNames 5 = map fst (filter (\<lambda>(n, f). is (5 :: groups) f) Names)"
    by blast+
  from b 3 have c: "toNames 5 = [''one'', ''three'']" by (rule trans)
  from 1 2 a c show ?thesis by blast
qed

lemma fromNames_loop_unknown:
  "fromNames_loop f names = fromNames_loop f (filter (\<lambda>n. n \<in> fst ` set Names) names)"
proof (induction names arbitrary: f)
  case Nil
  then show ?case by simp
next
  case (Cons n names)
  show ?case
  proof (cases "n \<in> fst ` set Names")
    case True
    then show ?thesis using Cons.IH by simp
  next
    case False
    then have "fromName n = None"
      by (auto simp: Names_def fromName_def)
    then show ?thesis using False Cons.IH by (simp add: or_assign_def)
  qed
qed

text \<open>
  C5, as the spec states it, fails: \<^verbatim>\<open>fromNames\<close> has no failing path. On the list
  \<^verbatim>\<open>['two', 'seven']\<close>, whose second token is not a key of \<^verbatim>\<open>Names\<close>, it returns the flag
  value \<^verbatim>\<open>Flag.Two\<close>.
\<close>

theorem fromNames_unknown_counterexample:
  "''seven'' \<notin> fst ` set Names \<and> fromNames [''two'', ''seven''] = Flag_Two"
  by (simp add: Names_def fromNames_def fromName_def or_assign_def Flag_defs)

lemma fromName_map_of: "fromName n = map_of Names n"
  by (simp add: fromName_def Names_def)

lemma fromNames_loop_or:
  "fromNames_loop f names =
    f OR foldr (OR) (map (\<lambda>n. the (map_of Names n)) (filter (\<lambda>n. n \<in> fst ` set Names) names))
      Flag_None"
proof (induction names arbitrary: f)
  case Nil
  then show ?case by (simp add: Flag_None_def)
next
  case (Cons n names)
  show ?case
  proof (cases "map_of Names n")
    case None
    then have "n \<notin> fst ` set Names" by (simp add: map_of_eq_None_iff)
    with None show ?thesis
      by (simp add: Cons.IH fromName_map_of or_assign_def)
  next
    case (Some b)
    then have "n \<in> fst ` set Names" by (metis map_of_eq_None_iff option.distinct(1))
    with Some show ?thesis
      by (simp add: Cons.IH fromName_map_of or_assign_def or.assoc)
  qed
qed

text \<open>
  C5, amended: \<^verbatim>\<open>fromNames\<close> never fails. Its result is the bitwise OR of the bits that
  the table \<^verbatim>\<open>Names\<close> gives to the defined names in the list; a token that is not one of
  the six defined names contributes no bit, so the result is also that of the list with
  those tokens left out.
\<close>

theorem fromNames_unknown_ignored:
  "fromNames names =
     foldr (OR) (map (\<lambda>n. the (map_of Names n)) (filter (\<lambda>n. n \<in> fst ` set Names) names))
       Flag_None \<and>
   fromNames names = fromNames (filter (\<lambda>n. n \<in> fst ` set Names) names)"
proof -
  have "fromNames names =
     foldr (OR) (map (\<lambda>n. the (map_of Names n)) (filter (\<lambda>n. n \<in> fst ` set Names) names))
       Flag_None"
    by (simp add: fromNames_def fromNames_loop_or Flag_None_def)
  moreover have "fromNames names = fromNames (filter (\<lambda>n. n \<in> fst ` set Names) names)"
    unfolding fromNames_def by (rule fromNames_loop_unknown)
  ultimately show ?thesis by (rule conjI)
qed

section \<open>Merging layers\<close>

lemmas Loci_defs =
  Loci_none_def Loci_isEmpty_def Loci_union_def Loci_subtract_def Loci_remap_def
  Loci_areEqual_def

lemma won_Nil: "won g [] sh = {}"
  by (simp add: won_def)

lemma won_Cons:
  "won g (l # rest) sh =
    (if groups l = g then elements (loci l) - sh else {}) \<union> won g rest (elements (loci l) \<union> sh)"
  by (auto simp: won_def)

lemma merge_loop_distinct:
  "distinct (map fst m) \<Longrightarrow> distinct (map fst (merge_loop rs m sh))"
  by (induction rs arbitrary: m sh) (simp_all add: Let_def distinct_update)

lemma sel_update:
  "sel (AList.update k v m) g = (if g = k then Some (elements v) else sel m g)"
  by (simp add: sel_def update_conv')

lemma merge_loop_sel:
  "sel (merge_loop rs m sh) g =
    (case sel m g of
       None \<Rightarrow> if won g rs (elements sh) = {} then None else Some (won g rs (elements sh))
     | Some E \<Rightarrow> Some (E \<union> won g rs (elements sh)))"
proof (induction rs arbitrary: m sh)
  case Nil
  then show ?case by (simp add: won_Nil split: option.splits)
next
  case (Cons layer rest)
  let ?l = "Loci_subtract (loci layer) sh"
  let ?sh = "Loci_union ?l sh"
  let ?v = "case map_of m (groups layer) of Some prev \<Rightarrow> Loci_union ?l prev | None \<Rightarrow> ?l"
  have sh: "elements ?sh = elements (loci layer) \<union> elements sh"
    by (auto simp: Loci_union_def Loci_subtract_def)
  have l: "elements ?l = elements (loci layer) - elements sh"
    by (simp add: Loci_subtract_def)
  show ?case
  proof (cases "Loci_isEmpty ?l")
    case True
    then have "elements (loci layer) - elements sh = {}"
      using l by (simp add: Loci_isEmpty_def)
    then have w: "won g (layer # rest) (elements sh) = won g rest (elements ?sh)"
      by (auto simp: won_Cons sh)
    have step: "merge_loop (layer # rest) m sh = merge_loop rest m ?sh"
      using True by (simp add: Let_def)
    show ?thesis unfolding step w by (rule Cons.IH)
  next
    case False
    then have ne: "elements (loci layer) - elements sh \<noteq> {}"
      using l by (simp add: Loci_isEmpty_def)
    have step: "merge_loop (layer # rest) m sh =
        merge_loop rest (AList.update (groups layer) ?v m) ?sh"
      using False by (simp add: Let_def)
    have v: "elements ?v =
        (elements (loci layer) - elements sh) \<union>
        (case sel m (groups layer) of None \<Rightarrow> {} | Some E \<Rightarrow> E)"
      by (simp add: sel_def l Loci_union_def split: option.splits)
    show ?thesis
    proof (cases "g = groups layer")
      case True
      show ?thesis
        unfolding step Cons.IH sel_update sh won_Cons v
        using True ne by (auto split: option.splits)
    next
      case False
      show ?thesis
        unfolding step Cons.IH sel_update sh won_Cons v
        using False by (auto split: option.splits)
    qed
  qed
qed

lemma sel_Nil: "sel [] g = None"
  by (simp add: sel_def)

lemma won_owner: "won g (rev ls) {} = {e. owner ls e = Some g}"
  by (simp add: won_def owner_def)

lemma layers_merge:
  "layers (merge c) =
    (if layers c = [] then [] else map (\<lambda>(g, l). \<lparr>loci = l, groups = g\<rparr>) (merge_map c))"
  by (simp add: merge_def isEmpty_def merge_map_def)

lemma merge_map_distinct: "distinct (map fst (merge_map c))"
  unfolding merge_map_def by (rule merge_loop_distinct) simp

lemma merge_map_sel:
  "sel (merge_map c) g =
    (if {e. owner (layers c) e = Some g} = {} then None else Some {e. owner (layers c) e = Some g})"
  unfolding merge_map_def merge_loop_sel
  by (simp add: sel_Nil Loci_none_def won_owner)

lemma merge_map_entry:
  "(g, l) \<in> set (merge_map c) \<longleftrightarrow>
     map_of (merge_map c) g = Some l"
  using merge_map_distinct [of c] by simp

lemma merge_map_elements:
  assumes "(g, l) \<in> set (merge_map c)"
  shows "elements l = {e. owner (layers c) e = Some g}" "elements l \<noteq> {}"
proof -
  from assms have "sel (merge_map c) g = Some (elements l)"
    by (simp add: merge_map_entry sel_def)
  then show "elements l = {e. owner (layers c) e = Some g}" "elements l \<noteq> {}"
    unfolding merge_map_sel by (auto split: if_splits)
qed

lemma merge_map_keys:
  "fst ` set (merge_map c) = {g. \<exists>e. owner (layers c) e = Some g}"
proof -
  have "g \<in> fst ` set (merge_map c) \<longleftrightarrow> (\<exists>e. owner (layers c) e = Some g)" for g
  proof -
    have "g \<in> fst ` set (merge_map c) \<longleftrightarrow> map_of (merge_map c) g \<noteq> None"
      by (simp add: map_of_eq_None_iff)
    also have "\<dots> \<longleftrightarrow> sel (merge_map c) g \<noteq> None"
      by (simp add: sel_def)
    also have "\<dots> \<longleftrightarrow> (\<exists>e. owner (layers c) e = Some g)"
      unfolding merge_map_sel by auto
    finally show ?thesis .
  qed
  then show ?thesis by blast
qed

lemma owner_Nil: "owner [] e = None"
  by (simp add: owner_def)

lemma find_Some_mem: "find P xs = Some x \<Longrightarrow> x \<in> set xs"
  by (induction xs) (auto split: if_splits)

lemma owner_in_input: "owner ls e = Some g \<Longrightarrow> g \<in> groups ` set ls"
  unfolding owner_def
  by (auto dest: find_Some_mem)

lemma groups_layers_merge:
  "map groups (layers (merge c)) = (if layers c = [] then [] else map fst (merge_map c))"
  by (simp add: layers_merge comp_def case_prod_beta)

lemma merge_groups_distinct: "distinct (map groups (layers (merge c)))"
  by (simp add: groups_layers_merge merge_map_distinct)

lemma merge_groups_set:
  "set (map groups (layers (merge c))) = {g. \<exists>e. owner (layers c) e = Some g}"
  using merge_map_keys [of c] by (simp add: groups_layers_merge owner_Nil)

lemma merge_layer_elements:
  assumes "out \<in> set (layers (merge c))"
  shows "elements (loci out) = {e. owner (layers c) e = Some (groups out)}"
    and "elements (loci out) \<noteq> {}"
proof -
  from assms have "layers c \<noteq> []"
    by (auto simp: layers_merge split: if_splits)
  with assms obtain g l where "(g, l) \<in> set (merge_map c)" "out = \<lparr>loci = l, groups = g\<rparr>"
    by (auto simp: layers_merge)
  then show "elements (loci out) = {e. owner (layers c) e = Some (groups out)}"
    and "elements (loci out) \<noteq> {}"
    using merge_map_elements [of g l c] by simp_all
qed

lemma update_fresh: "k \<notin> fst ` set m \<Longrightarrow> AList.update k v m = m @ [(k, v)]"
  by (induction m) auto

lemma Loci_subtract_disjoint:
  "elements l \<inter> elements sh = {} \<Longrightarrow> Loci_subtract l sh = l"
  by (simp add: Loci_subtract_def Diff_triv)

lemma merge_loop_exclusive:
  assumes "distinct (map fst qs)"
    and "fst ` set qs \<inter> fst ` set m = {}"
    and "\<forall>q \<in> set qs. elements (snd q) \<noteq> {} \<and> elements (snd q) \<inter> elements sh = {}"
    and "\<forall>q \<in> set qs. \<forall>r \<in> set qs. fst q \<noteq> fst r \<longrightarrow> elements (snd q) \<inter> elements (snd r) = {}"
  shows "merge_loop (map (\<lambda>(g, l). \<lparr>loci = l, groups = g\<rparr>) qs) m sh = m @ qs"
  using assms
proof (induction qs arbitrary: m sh)
  case Nil
  then show ?case by simp
next
  case (Cons q qs)
  obtain g l where q: "q = (g, l)" by (cases q)
  let ?sh = "Loci_union l sh"
  from Cons.prems(3) q have l: "elements l \<noteq> {}" "elements l \<inter> elements sh = {}"
    by auto
  then have sub: "Loci_subtract l sh = l" and ne: "\<not> Loci_isEmpty l"
    by (simp_all add: Loci_subtract_disjoint Loci_isEmpty_def)
  from Cons.prems(2) q have fresh: "g \<notin> fst ` set m" by auto
  then have none: "map_of m g = None" by (simp add: map_of_eq_None_iff)
  have step: "merge_loop (map (\<lambda>(g, l). \<lparr>loci = l, groups = g\<rparr>) (q # qs)) m sh =
      merge_loop (map (\<lambda>(g, l). \<lparr>loci = l, groups = g\<rparr>) qs) (m @ [(g, l)]) ?sh"
    by (simp add: q Let_def sub ne none update_fresh [OF fresh])
  have 1: "distinct (map fst qs)" using Cons.prems(1) by simp
  have 2: "fst ` set qs \<inter> fst ` set (m @ [(g, l)]) = {}"
    using Cons.prems(1,2) q by auto
  have 3: "\<forall>r \<in> set qs. elements (snd r) \<noteq> {} \<and> elements (snd r) \<inter> elements ?sh = {}"
  proof
    fix r assume r: "r \<in> set qs"
    then have "fst r \<noteq> g" using Cons.prems(1) q by auto
    then have "elements l \<inter> elements (snd r) = {}"
      using Cons.prems(4) r q by fastforce
    moreover have "elements (snd r) \<noteq> {} \<and> elements (snd r) \<inter> elements sh = {}"
      using Cons.prems(3) r by simp
    ultimately show "elements (snd r) \<noteq> {} \<and> elements (snd r) \<inter> elements ?sh = {}"
      by (auto simp: Loci_union_def)
  qed
  have 4: "\<forall>a \<in> set qs. \<forall>r \<in> set qs. fst a \<noteq> fst r \<longrightarrow> elements (snd a) \<inter> elements (snd r) = {}"
    using Cons.prems(4) by simp
  show ?case unfolding step Cons.IH [OF 1 2 3 4] by (simp add: q)
qed

lemma merge_map_disjoint:
  assumes "q \<in> set (merge_map c)" "r \<in> set (merge_map c)" "fst q \<noteq> fst r"
  shows "elements (snd q) \<inter> elements (snd r) = {}"
proof -
  have "elements (snd q) = {e. owner (layers c) e = Some (fst q)}"
    using merge_map_elements(1) [of "fst q" "snd q" c] assms(1) by simp
  moreover have "elements (snd r) = {e. owner (layers c) e = Some (fst r)}"
    using merge_map_elements(1) [of "fst r" "snd r" c] assms(2) by simp
  ultimately show ?thesis using assms(3) by auto
qed

lemma merge_loop_merge_map:
  "merge_loop (map (\<lambda>(g, l). \<lparr>loci = l, groups = g\<rparr>) (rev (merge_map c))) [] (Loci_none s)
     = rev (merge_map c)"
proof -
  have 1: "distinct (map fst (rev (merge_map c)))"
    using merge_map_distinct [of c] by (simp add: rev_map [symmetric])
  have 2: "fst ` set (rev (merge_map c)) \<inter> fst ` set ([] :: groups_map) = {}" by simp
  have 3: "\<forall>q \<in> set (rev (merge_map c)).
      elements (snd q) \<noteq> {} \<and> elements (snd q) \<inter> elements (Loci_none s) = {}"
    using merge_map_elements(2) [of _ _ c] by (auto simp: Loci_none_def)
  have 4: "\<forall>q \<in> set (rev (merge_map c)). \<forall>r \<in> set (rev (merge_map c)).
      fst q \<noteq> fst r \<longrightarrow> elements (snd q) \<inter> elements (snd r) = {}"
    using merge_map_disjoint [of _ c] by simp
  show ?thesis using merge_loop_exclusive [OF 1 2 3 4] by simp
qed

lemma layers_merge_merge: "layers (merge (merge c)) = rev (layers (merge c))"
proof (cases "layers (merge c) = []")
  case True
  then show ?thesis by (simp add: merge_def [of "merge c"] isEmpty_def)
next
  case False
  then have ne: "layers c \<noteq> []" by (auto simp: merge_def isEmpty_def split: if_splits)
  then have lm: "layers (merge c) = map (\<lambda>(g, l). \<lparr>loci = l, groups = g\<rparr>) (merge_map c)"
    by (simp add: layers_merge)
  have "layers (merge (merge c)) =
      map (\<lambda>(g, l). \<lparr>loci = l, groups = g\<rparr>)
        (merge_loop (rev (layers (merge c))) []
           (Loci_none (structure (loci (layers (merge c) ! 0)))))"
    using False by (simp add: merge_def [of "merge c"] isEmpty_def)
  also have "\<dots> = map (\<lambda>(g, l). \<lparr>loci = l, groups = g\<rparr>) (rev (merge_map c))"
    by (simp only: lm rev_map merge_loop_merge_map)
  also have "\<dots> = rev (layers (merge c))"
    by (simp only: lm rev_map)
  finally show ?thesis .
qed

lemma merge_frame: "variant (merge c) = variant c \<and> objects (merge c) = objects c"
  by (simp add: merge_def)

lemma merge_overlapping:
  "layers (merge overlapping_layers) =
    [\<lparr>loci = \<lparr>structure = example_structure, elements = {2, 3}\<rparr>, groups = Flag_Two\<rparr>,
     \<lparr>loci = \<lparr>structure = example_structure, elements = {1}\<rparr>, groups = Flag_One\<rparr>]"
  by (simp add: merge_def isEmpty_def overlapping_layers_def Let_def Loci_defs Flag_defs
      insert_Diff_if)

lemma merge_merge_overlapping:
  "layers (merge (merge overlapping_layers)) =
    [\<lparr>loci = \<lparr>structure = example_structure, elements = {1}\<rparr>, groups = Flag_One\<rparr>,
     \<lparr>loci = \<lparr>structure = example_structure, elements = {2, 3}\<rparr>, groups = Flag_Two\<rparr>]"
  by (simp add: merge_def [of "merge overlapping_layers"] merge_overlapping isEmpty_def Let_def
      Loci_defs Flag_defs insert_Diff_if)

lemma merge_shadowed:
  "layers (merge shadowed_layers) =
    [\<lparr>loci = \<lparr>structure = example_structure, elements = {1, 2}\<rparr>, groups = Flag_Two\<rparr>]"
  by (simp add: merge_def isEmpty_def shadowed_layers_def Let_def Loci_defs Flag_defs
      insert_Diff_if)










text \<open>
  C2, as the spec states it, fails: on the two overlapping layers, \<^verbatim>\<open>merge\<close> gives the
  layers for the groups Two and One in this order, and \<^verbatim>\<open>merge\<close> of that gives them in
  the order One, Two, so the two aggregates are not equal under \<^verbatim>\<open>areEqual\<close>.
\<close>

theorem merge_idempotence_counterexample:
  "\<not> areEqual (merge (merge overlapping_layers)) (merge overlapping_layers)"
  by (simp add: areEqual_def merge_overlapping merge_merge_overlapping Flag_defs)

text \<open>
  C2, amended: a second \<^verbatim>\<open>merge\<close> changes nothing but the order of the layers:
  \<^verbatim>\<open>merge(merge(c))\<close> has the layers of \<^verbatim>\<open>merge(c)\<close> in reverse order, with the same
  variant and the same primitive data, and a third \<^verbatim>\<open>merge\<close> gives \<^verbatim>\<open>merge(c)\<close> back.
\<close>

theorem merge_twice:
  "layers (merge (merge c)) = rev (layers (merge c)) \<and>
   variant (merge (merge c)) = variant (merge c) \<and>
   objects (merge (merge c)) = objects (merge c) \<and>
   merge (merge (merge c)) = merge c"
proof -
  have "layers (merge (merge (merge c))) = layers (merge c)"
    by (simp add: layers_merge_merge)
  then have "merge (merge (merge c)) = merge c"
    by (simp add: clipping.equality merge_frame)
  then show ?thesis by (simp add: layers_merge_merge merge_frame)
qed

text \<open>
  C8, as the spec states it, fails: of the two layers of the example the earlier one,
  of groups One, is covered by the later one, and the output of \<^verbatim>\<open>merge\<close> has no layer
  of groups One.
\<close>

theorem merge_keys_counterexample:
  "Flag_One \<in> set (map groups (layers shadowed_layers)) \<and>
   Flag_One \<notin> set (map groups (layers (merge shadowed_layers)))"
  by (simp add: merge_shadowed) (simp add: shadowed_layers_def Flag_defs)

text \<open>
  C8, amended: in the output of \<^verbatim>\<open>merge\<close> no groups key occurs twice, every key is a key
  of the input, and the keys present are those that own an element, that is, the groups
  of the last input layer whose selection contains some element; on an aggregate with
  no layers \<^verbatim>\<open>merge\<close> returns the input unchanged.
\<close>

theorem merge_keys:
  "distinct (map groups (layers (merge c))) \<and>
   set (map groups (layers (merge c))) = {g. \<exists>e. owner (layers c) e = Some g} \<and>
   set (map groups (layers (merge c))) \<subseteq> set (map groups (layers c)) \<and>
   merge (c\<lparr>layers := []\<rparr>) = c\<lparr>layers := []\<rparr>"
proof -
  have s: "set (map groups (layers (merge c))) \<subseteq> set (map groups (layers c))"
    unfolding merge_groups_set using owner_in_input by auto
  have e: "merge (c\<lparr>layers := []\<rparr>) = c\<lparr>layers := []\<rparr>"
    by (simp add: merge_def isEmpty_def)
  from merge_groups_distinct [of c] merge_groups_set [of c] s e show ?thesis by blast
qed

section \<open>Empty layers and the frame of the layer algebra\<close>

lemma remap_layers_nonempty:
  "\<forall>out \<in> set (remap_layers ls s). \<not> Loci_isEmpty (loci out)"
  by (induction ls) (simp_all add: Let_def)

lemma filter_layers_nonempty:
  "\<forall>out \<in> set (filter_layers ls flt s). \<not> Loci_isEmpty (loci out)"
  by (induction ls) (simp_all add: Let_def)

text \<open>
  C3: no layer in the result of \<^verbatim>\<open>remap\<close>, of \<^verbatim>\<open>filter\<close> or of \<^verbatim>\<open>merge\<close> has an empty
  selection, for every aggregate and every target structure; on an aggregate with no
  layers \<^verbatim>\<open>merge\<close> returns the input unchanged (and its result has no layer at all).
\<close>

theorem no_empty_layers:
  "(\<forall>out \<in> set (layers (remap c s)). \<not> Loci_isEmpty (loci out)) \<and>
   (\<forall>out \<in> set (layers (filter_clipping c flt)). \<not> Loci_isEmpty (loci out)) \<and>
   (\<forall>out \<in> set (layers (merge c)). \<not> Loci_isEmpty (loci out)) \<and>
   (isEmpty c \<longrightarrow> merge c = c)"
proof -
  have 1: "\<forall>out \<in> set (layers (remap c s)). \<not> Loci_isEmpty (loci out)"
    by (simp add: remap_def remap_layers_nonempty)
  have 2: "\<forall>out \<in> set (layers (filter_clipping c flt)). \<not> Loci_isEmpty (loci out)"
    using filter_layers_nonempty by (simp add: filter_clipping_def isEmpty_def)
  have 3: "\<forall>out \<in> set (layers (merge c)). \<not> Loci_isEmpty (loci out)"
    using merge_layer_elements(2) [of _ c] by (simp add: Loci_isEmpty_def)
  have 4: "isEmpty c \<longrightarrow> merge c = c"
    by (simp add: merge_def)
  from 1 2 3 4 show ?thesis by blast
qed

lemma remap_overlapping:
  "layers (remap overlapping_layers example_child) =
    [\<lparr>loci = \<lparr>structure = example_child, elements = {1, 2}\<rparr>, groups = Flag_One\<rparr>,
     \<lparr>loci = \<lparr>structure = example_child, elements = {2}\<rparr>, groups = Flag_Two\<rparr>]"
  by (simp add: remap_def overlapping_layers_def example_child_def Let_def Loci_defs)

lemma filter_overlapping:
  "layers (filter_clipping overlapping_layers example_child) =
    [\<lparr>loci = \<lparr>structure = example_structure, elements = {1, 2}\<rparr>, groups = Flag_One\<rparr>,
     \<lparr>loci = \<lparr>structure = example_structure, elements = {2}\<rparr>, groups = Flag_Two\<rparr>]"
  by (simp add: filter_clipping_def isEmpty_def overlapping_layers_def example_child_def
      example_structure_def Let_def Loci_defs)

theorem no_empty_layers_witness:
  "layers (remap overlapping_layers example_child) \<noteq> [] \<and>
   \<not> Loci_isEmpty (loci (layers (remap overlapping_layers example_child) ! 1)) \<and>
   layers (filter_clipping overlapping_layers example_child) \<noteq> [] \<and>
   \<not> Loci_isEmpty (loci (layers (filter_clipping overlapping_layers example_child) ! 1)) \<and>
   layers (merge overlapping_layers) \<noteq> [] \<and>
   \<not> Loci_isEmpty (loci (layers (merge overlapping_layers) ! 1)) \<and>
   isEmpty Empty \<and> merge Empty = Empty"
proof -
  note t = no_empty_layers [of overlapping_layers example_child example_child]
  have r: "layers (remap overlapping_layers example_child) ! 1
      \<in> set (layers (remap overlapping_layers example_child))"
    by (simp add: remap_overlapping)
  have f: "layers (filter_clipping overlapping_layers example_child) ! 1
      \<in> set (layers (filter_clipping overlapping_layers example_child))"
    by (simp add: filter_overlapping)
  have m: "layers (merge overlapping_layers) ! 1 \<in> set (layers (merge overlapping_layers))"
    by (simp add: merge_overlapping)
  have e: "isEmpty Empty" by (simp add: isEmpty_def Empty_def)
  from t r have 1: "\<not> Loci_isEmpty (loci (layers (remap overlapping_layers example_child) ! 1))"
    by blast
  from t f have 2:
    "\<not> Loci_isEmpty (loci (layers (filter_clipping overlapping_layers example_child) ! 1))"
    by blast
  from t m have 3: "\<not> Loci_isEmpty (loci (layers (merge overlapping_layers) ! 1))"
    by blast
  from no_empty_layers [of Empty example_child example_child] e have 4: "merge Empty = Empty"
    by blast
  have 5: "layers (remap overlapping_layers example_child) \<noteq> []"
    "layers (filter_clipping overlapping_layers example_child) \<noteq> []"
    "layers (merge overlapping_layers) \<noteq> []"
    by (simp_all add: remap_overlapping filter_overlapping merge_overlapping)
  from 1 2 3 4 5 e show ?thesis by blast
qed

text \<open>
  C10: the aggregates returned by \<^verbatim>\<open>remap\<close>, \<^verbatim>\<open>merge\<close> and \<^verbatim>\<open>filter\<close> have the variant
  and the objects of the input aggregate.
\<close>

theorem layer_algebra_frame:
  "variant (remap c s) = variant c \<and> objects (remap c s) = objects c \<and>
   variant (merge c) = variant c \<and> objects (merge c) = objects c \<and>
   variant (filter_clipping c flt) = variant c \<and> objects (filter_clipping c flt) = objects c"
  by (simp add: remap_def merge_def filter_clipping_def)

section \<open>The bundle round trip\<close>

text \<open>
  C7, as the spec states it, fails: the layer of the example is bound to a derived
  structure; \<^verbatim>\<open>ofBundle\<close> resolves its bundle against the root of that structure, so
  the selection it produces is bound to the root and is not equal to the original one.
\<close>

theorem bundle_round_trip_counterexample:
  "structure (loci (layers child_layers ! 0)) = example_child \<and>
   \<not> Loci_areEqual
       (loci (layers (ofBundle (b_layers (toBundle child_layers)) example_child
                (as_clip child_layers)) ! 0))
       (loci (layers child_layers ! 0))"
  by (simp add: child_layers_def ofBundle_def toBundle_def Loci_areEqual_def Bundle_toLoci_def
      Bundle_fromLoci_def example_child_def example_structure_def)

lemma ofBundle_toBundle_layers:
  "layers (ofBundle (b_layers (toBundle c)) s clip) =
    map (\<lambda>layer. \<lparr>loci = \<lparr>structure = root s, elements = elements (loci layer) \<inter> members (root s)\<rparr>,
                  groups = groups layer\<rparr>) (layers c)"
  by (simp add: ofBundle_def toBundle_def Bundle_toLoci_def Bundle_fromLoci_def comp_def)

lemma map_idI: "(\<And>x. x \<in> set xs \<Longrightarrow> f x = x) \<Longrightarrow> map f xs = xs"
  by (induction xs) simp_all

text \<open>
  C7, amended: when every layer of \<open>c\<close> is a selection of \<^verbatim>\<open>structure.root\<close> (bound to
  it, with its elements in it), \<^verbatim>\<open>ofBundle(toBundle(c).layers, structure, c)\<close> has as
  many layers as \<open>c\<close>, in order, with identical groups and loci-equal selections. On
  every input neither function drops a layer: \<^verbatim>\<open>toBundle\<close> gives one bundle layer for
  each layer and \<^verbatim>\<open>ofBundle\<close> one layer for each bundle layer, with its groups.
\<close>

theorem bundle_round_trip:
  "length (b_layers (toBundle c)) = length (layers c) \<and>
   map b_groups (b_layers (toBundle c)) = map groups (layers c) \<and>
   length (layers (ofBundle bls s clip)) = length bls \<and>
   map groups (layers (ofBundle bls s clip)) = map b_groups bls \<and>
   ((\<forall>l \<in> set (layers c). structure (loci l) = root s \<and> elements (loci l) \<subseteq> members (root s))
      \<longrightarrow>
      length (layers (ofBundle (b_layers (toBundle c)) s (as_clip c))) = length (layers c) \<and>
      map groups (layers (ofBundle (b_layers (toBundle c)) s (as_clip c))) =
        map groups (layers c) \<and>
      list_all2 (\<lambda>a b. Loci_areEqual (loci a) (loci b))
        (layers (ofBundle (b_layers (toBundle c)) s (as_clip c))) (layers c))"
proof -
  let ?r = "ofBundle (b_layers (toBundle c)) s (as_clip c)"
  have 1: "length (b_layers (toBundle c)) = length (layers c)"
    "map b_groups (b_layers (toBundle c)) = map groups (layers c)"
    by (simp_all add: toBundle_def comp_def)
  have 2: "length (layers (ofBundle bls s clip)) = length bls"
    "map groups (layers (ofBundle bls s clip)) = map b_groups bls"
    by (simp_all add: ofBundle_def comp_def)
  have 3: "length (layers ?r) = length (layers c) \<and> map groups (layers ?r) = map groups (layers c) \<and>
      list_all2 (\<lambda>a b. Loci_areEqual (loci a) (loci b)) (layers ?r) (layers c)"
    if h: "\<forall>l \<in> set (layers c). structure (loci l) = root s \<and> elements (loci l) \<subseteq> members (root s)"
  proof -
    have "layers ?r = layers c"
      unfolding ofBundle_toBundle_layers
    proof (rule map_idI)
      fix x assume "x \<in> set (layers c)"
      with h have "structure (loci x) = root s"
        "elements (loci x) \<inter> members (root s) = elements (loci x)"
        by auto
      then show "\<lparr>loci = \<lparr>structure = root s, elements = elements (loci x) \<inter> members (root s)\<rparr>,
          groups = groups x\<rparr> = x"
        by (simp add: layer.equality loci.equality)
    qed
    then show ?thesis
      by (simp add: list_all2_same Loci_areEqual_def)
  qed
  from 1 2 3 show ?thesis by blast
qed

theorem bundle_round_trip_witness:
  "structure (loci (layers root_layers ! 0)) = root example_structure \<and>
   elements (loci (layers root_layers ! 0)) \<subseteq> members (root example_structure) \<and>
   length (layers root_layers) = 1 \<and>
   length (layers (ofBundle (b_layers (toBundle root_layers)) example_structure
      (as_clip root_layers))) = 1 \<and>
   groups (layers (ofBundle (b_layers (toBundle root_layers)) example_structure
      (as_clip root_layers)) ! 0) = groups (layers root_layers ! 0) \<and>
   Loci_areEqual
     (loci (layers (ofBundle (b_layers (toBundle root_layers)) example_structure
        (as_clip root_layers)) ! 0))
     (loci (layers root_layers ! 0))"
proof -
  let ?r = "ofBundle (b_layers (toBundle root_layers)) example_structure (as_clip root_layers)"
  have h: "\<forall>l \<in> set (layers root_layers).
      structure (loci l) = root example_structure \<and>
      elements (loci l) \<subseteq> members (root example_structure)"
    by (simp add: root_layers_def example_structure_def)
  have 1: "structure (loci (layers root_layers ! 0)) = root example_structure"
    "elements (loci (layers root_layers ! 0)) \<subseteq> members (root example_structure)"
    "length (layers root_layers) = 1"
    by (simp_all add: root_layers_def example_structure_def)
  from bundle_round_trip [of root_layers _ example_structure] h
  have t: "length (layers ?r) = length (layers root_layers)"
    "map groups (layers ?r) = map groups (layers root_layers)"
    "list_all2 (\<lambda>a b. Loci_areEqual (loci a) (loci b)) (layers ?r) (layers root_layers)"
    by blast+
  from t(1) 1(3) have 2: "length (layers ?r) = 1" by simp
  from t(2) 2 1(3) have 3: "groups (layers ?r ! 0) = groups (layers root_layers ! 0)"
    by (metis length_greater_0_conv less_numeral_extra(1) list.size(3) nth_map zero_neq_one)
  from t(3) 2 have 4: "Loci_areEqual (loci (layers ?r ! 0)) (loci (layers root_layers ! 0))"
    by (simp add: list_all2_conv_all_nth)
  from 1 2 3 4 show ?thesis by blast
qed

section \<open>Compiling clip objects\<close>

lemma length_array_set: "length (array_set xs i v) = max (length xs) (Suc i)"
  by (auto simp: array_set_def)

lemma array_get_set:
  "array_get (array_set xs i v) j = (if j = i then v else array_get xs j)"
  by (auto simp: array_get_def array_set_def nth_append)

lemma length_Vec3_toArray:
  "length (Vec3_toArray v out offset) = max (length out) (offset + 3)"
  by (cases v) (auto simp: Vec3_toArray_def length_array_set)

lemma length_Quat_toArray:
  "length (Quat_toArray q out offset) = max (length out) (offset + 4)"
  by (cases q) (auto simp: Quat_toArray_def length_array_set)

lemma array_get_Vec3_toArray:
  "array_get (Vec3_toArray (x, y, z) out offset) j =
    (if j = offset then Some x else if j = offset + 1 then Some y
     else if j = offset + 2 then Some z else array_get out j)"
  by (simp add: Vec3_toArray_def array_get_set)

lemma array_get_Quat_toArray:
  "array_get (Quat_toArray (x, y, z, w) out offset) j =
    (if j = offset then Some x else if j = offset + 1 then Some y
     else if j = offset + 2 then Some z else if j = offset + 3 then Some w
     else array_get out j)"
  by (simp add: Quat_toArray_def array_get_set)

lemma getClip_loop_count: "count (getClip_loop ps i ob) = count ob"
  by (induction ps arbitrary: i ob) simp_all

lemma getClip_loop_lengths:
  "ps \<noteq> [] \<Longrightarrow>
   length (type (getClip_loop ps i ob)) = max (length (type ob)) (i + length ps) \<and>
   length (invert (getClip_loop ps i ob)) = max (length (invert ob)) (i + length ps) \<and>
   length (position (getClip_loop ps i ob)) = max (length (position ob)) ((i + length ps) * 3) \<and>
   length (rotation (getClip_loop ps i ob)) = max (length (rotation ob)) ((i + length ps) * 4) \<and>
   length (scale (getClip_loop ps i ob)) = max (length (scale ob)) ((i + length ps) * 3)"
proof (induction ps arbitrary: i ob)
  case Nil
  then show ?case by simp
next
  case (Cons p ps)
  show ?case
  proof (cases "ps = []")
    case True
    then show ?thesis
      by (simp add: length_array_set length_Vec3_toArray length_Quat_toArray add.commute)
  next
    case False
    from Cons.IH [OF False] show ?thesis
      by (simp add: length_array_set length_Vec3_toArray length_Quat_toArray add.commute)
        (simp add: max_def)
  qed
qed

lemma getClip_loop_preserved:
  "(k < i \<longrightarrow> array_get (type (getClip_loop ps i ob)) k = array_get (type ob) k \<and>
      array_get (invert (getClip_loop ps i ob)) k = array_get (invert ob) k) \<and>
   (k < i * 3 \<longrightarrow> array_get (position (getClip_loop ps i ob)) k = array_get (position ob) k \<and>
      array_get (scale (getClip_loop ps i ob)) k = array_get (scale ob) k) \<and>
   (k < i * 4 \<longrightarrow> array_get (rotation (getClip_loop ps i ob)) k = array_get (rotation ob) k)"
proof (induction ps arbitrary: i ob)
  case Nil
  then show ?case by simp
next
  case (Cons p ps)
  obtain px py pz where pp: "p_position p = (px, py, pz)" by (cases "p_position p")
  obtain sx sy sz where ps: "p_scale p = (sx, sy, sz)" by (cases "p_scale p")
  obtain qx qy qz qw where q:
    "Quat_setAxisAngle (axis (p_rotation p)) (degToRad (angle (p_rotation p))) = (qx, qy, qz, qw)"
    by (cases "Quat_setAxisAngle (axis (p_rotation p)) (degToRad (angle (p_rotation p)))")
  show ?case
    using Cons.IH [of "i + 1"]
    by (simp add: pp ps q array_get_set array_get_Vec3_toArray array_get_Quat_toArray)
qed

lemma getClip_loop_stored:
  "j < length ps \<Longrightarrow>
   array_get (type (getClip_loop ps i ob)) (i + j) = map_of Type (p_type (ps ! j)) \<and>
   array_get (invert (getClip_loop ps i ob)) (i + j) = Some (p_invert (ps ! j)) \<and>
   Vec3_fromArray (position (getClip_loop ps i ob)) ((i + j) * 3) =
     (case p_position (ps ! j) of (x, y, z) \<Rightarrow> [Some x, Some y, Some z]) \<and>
   Quat_fromArray (rotation (getClip_loop ps i ob)) ((i + j) * 4) =
     (case Quat_setAxisAngle (axis (p_rotation (ps ! j))) (degToRad (angle (p_rotation (ps ! j))))
      of (x, y, z, w) \<Rightarrow> [Some x, Some y, Some z, Some w]) \<and>
   Vec3_fromArray (scale (getClip_loop ps i ob)) ((i + j) * 3) =
     (case p_scale (ps ! j) of (x, y, z) \<Rightarrow> [Some x, Some y, Some z])"
proof (induction ps arbitrary: i ob j)
  case Nil
  then show ?case by simp
next
  case (Cons p ps)
  obtain px py pz where pp: "p_position p = (px, py, pz)" by (cases "p_position p")
  obtain sx sy sz where ps: "p_scale p = (sx, sy, sz)" by (cases "p_scale p")
  obtain qx qy qz qw where q:
    "Quat_setAxisAngle (axis (p_rotation p)) (degToRad (angle (p_rotation p))) = (qx, qy, qz, qw)"
    by (cases "Quat_setAxisAngle (axis (p_rotation p)) (degToRad (angle (p_rotation p)))")
  show ?case
  proof (cases j)
    case 0
    then show ?thesis
      by (simp add: getClip_loop_preserved Vec3_fromArray_def Quat_fromArray_def pp ps q
          array_get_set array_get_Vec3_toArray array_get_Quat_toArray)
  next
    case (Suc j')
    with Cons.prems have "j' < length ps" by simp
    from Cons.IH [OF this, of "i + 1"] Suc show ?thesis
      by (simp add: add.commute)
  qed
qed

lemma createClipObjects_lengths:
  "length (type createClipObjects) = 5" "length (invert createClipObjects) = 5"
  "length (position createClipObjects) = 15" "length (rotation createClipObjects) = 20"
  "length (scale createClipObjects) = 15"
  by (simp_all add: createClipObjects_def)

lemma getClip_fresh:
  "clip_objects (getClip props None) =
    (getClip_loop (props_objects props) 0 createClipObjects)
      \<lparr>count := length (props_objects props)\<rparr>"
  by (simp add: getClip_def)

lemma getClip_objects:
  "clip_objects (getClip props clip) =
    (getClip_loop (props_objects props) 0
       (case clip of Some c \<Rightarrow> clip_objects c | None \<Rightarrow> createClipObjects))
      \<lparr>count := length (props_objects props)\<rparr>"
  by (simp add: getClip_def)

lemma getClip_loop_lengths0:
  "length (type (getClip_loop ps 0 ob)) = max (length (type ob)) (length ps) \<and>
   length (invert (getClip_loop ps 0 ob)) = max (length (invert ob)) (length ps) \<and>
   length (position (getClip_loop ps 0 ob)) = max (length (position ob)) (length ps * 3) \<and>
   length (rotation (getClip_loop ps 0 ob)) = max (length (rotation ob)) (length ps * 4) \<and>
   length (scale (getClip_loop ps 0 ob)) = max (length (scale ob)) (length ps * 3)"
proof (cases "ps = []")
  case True
  then show ?thesis by simp
next
  case False
  from getClip_loop_lengths [OF False, of 0 ob] show ?thesis by simp
qed

lemma length_six_objects: "length six_objects = 6"
  by (simp add: six_objects_def)

lemma six_objects_5: "six_objects ! 5 = plane_object\<lparr>p_type := ''sphere''\<rparr>"
  by (simp add: six_objects_def nth_append)

text \<open>
  C4, amended: \<^verbatim>\<open>getClip\<close> does not truncate. With \<open>n\<close> clip objects, compiled into
  a fresh array or into the arrays of a previous result, \<open>count\<close> is \<open>n\<close>; for every
  \<open>j < n\<close> the object of index \<open>j\<close> is stored at slot \<open>j\<close> of the type and invert arrays
  and at the slots from \<open>3j\<close>, \<open>4j\<close> and \<open>3j\<close> of the position, rotation and scale arrays;
  and each array keeps its length when that suffices and grows to \<open>n\<close>, \<open>3n\<close> or \<open>4n\<close>
  slots otherwise. A fresh array has room for five objects, so beyond five the arrays
  grow.
\<close>

theorem getClip_no_truncation:
  assumes "ob0 = (case clip of Some c \<Rightarrow> clip_objects c | None \<Rightarrow> createClipObjects)"
    and "ob = clip_objects (getClip props clip)"
    and "ps = props_objects props"
  shows "count ob = length ps \<and>
   length (type ob) = max (length (type ob0)) (length ps) \<and>
   length (invert ob) = max (length (invert ob0)) (length ps) \<and>
   length (position ob) = max (length (position ob0)) (length ps * 3) \<and>
   length (rotation ob) = max (length (rotation ob0)) (length ps * 4) \<and>
   length (scale ob) = max (length (scale ob0)) (length ps * 3) \<and>
   (\<forall>j < length ps.
      array_get (type ob) j = map_of Type (p_type (ps ! j)) \<and>
      array_get (invert ob) j = Some (p_invert (ps ! j)) \<and>
      Vec3_fromArray (position ob) (j * 3) =
        (case p_position (ps ! j) of (x, y, z) \<Rightarrow> [Some x, Some y, Some z]) \<and>
      Quat_fromArray (rotation ob) (j * 4) =
        (case Quat_setAxisAngle (axis (p_rotation (ps ! j))) (degToRad (angle (p_rotation (ps ! j))))
         of (x, y, z, w) \<Rightarrow> [Some x, Some y, Some z, Some w]) \<and>
      Vec3_fromArray (scale ob) (j * 3) =
        (case p_scale (ps ! j) of (x, y, z) \<Rightarrow> [Some x, Some y, Some z]))"
proof -
  have ob: "ob = (getClip_loop ps 0 ob0)\<lparr>count := length ps\<rparr>"
    unfolding assms by (rule getClip_objects)
  have stored: "\<forall>j < length ps.
      array_get (type (getClip_loop ps 0 ob0)) j = map_of Type (p_type (ps ! j)) \<and>
      array_get (invert (getClip_loop ps 0 ob0)) j = Some (p_invert (ps ! j)) \<and>
      Vec3_fromArray (position (getClip_loop ps 0 ob0)) (j * 3) =
        (case p_position (ps ! j) of (x, y, z) \<Rightarrow> [Some x, Some y, Some z]) \<and>
      Quat_fromArray (rotation (getClip_loop ps 0 ob0)) (j * 4) =
        (case Quat_setAxisAngle (axis (p_rotation (ps ! j))) (degToRad (angle (p_rotation (ps ! j))))
         of (x, y, z, w) \<Rightarrow> [Some x, Some y, Some z, Some w]) \<and>
      Vec3_fromArray (scale (getClip_loop ps 0 ob0)) (j * 3) =
        (case p_scale (ps ! j) of (x, y, z) \<Rightarrow> [Some x, Some y, Some z])"
    using getClip_loop_stored [of _ ps 0 ob0] by simp
  from getClip_loop_lengths0 [of ps ob0] stored show ?thesis
    unfolding ob by simp
qed

theorem getClip_no_truncation_witness:
  "createClipObjects = (case None of Some c \<Rightarrow> clip_objects c | None \<Rightarrow> createClipObjects) \<and>
   six_objects = props_objects \<lparr>props_variant = Pixel, props_objects = six_objects\<rparr> \<and>
   (5 :: nat) < length six_objects \<and>
   count (clip_objects (getClip \<lparr>props_variant = Pixel, props_objects = six_objects\<rparr> None)) = 6 \<and>
   length (type (clip_objects (getClip \<lparr>props_variant = Pixel, props_objects = six_objects\<rparr> None)))
     = 6 \<and>
   array_get (type (clip_objects
     (getClip \<lparr>props_variant = Pixel, props_objects = six_objects\<rparr> None))) 5 = Some 2"
proof -
  let ?props = "\<lparr>props_variant = Pixel, props_objects = six_objects\<rparr>"
  have a: "createClipObjects = (case None of Some c \<Rightarrow> clip_objects c | None \<Rightarrow> createClipObjects)"
    by simp
  have b: "six_objects = props_objects ?props" by simp
  note t = getClip_no_truncation [OF a refl b]
  have 1: "(5 :: nat) < length six_objects"
    by (simp add: length_six_objects)
  from t 1 have "array_get (type (clip_objects (getClip ?props None))) 5 =
      map_of Type (p_type (six_objects ! 5))"
    by blast
  then have 2: "array_get (type (clip_objects (getClip ?props None))) 5 = Some 2"
    by (simp add: six_objects_5 Type_def)
  from t have 3: "count (clip_objects (getClip ?props None)) = 6"
    and 4: "length (type (clip_objects (getClip ?props None))) = 6"
    by (simp_all add: length_six_objects createClipObjects_lengths)
  from a b 1 2 3 4 show ?thesis by blast
qed

text \<open>
  C4, as the spec states it, fails: with six clip objects the type array has six slots
  and the position array eighteen, and slot 5 of the type array holds the type of the
  sixth object (2, a sphere).
\<close>

theorem getClip_truncation_counterexample:
  "5 < length six_objects \<and>
   length (type (clip_objects
     (getClip \<lparr>props_variant = Pixel, props_objects = six_objects\<rparr> None))) = 6 \<and>
   length (position (clip_objects
     (getClip \<lparr>props_variant = Pixel, props_objects = six_objects\<rparr> None))) = 18 \<and>
   array_get (type (clip_objects
     (getClip \<lparr>props_variant = Pixel, props_objects = six_objects\<rparr> None))) 5 = Some 2"
proof -
  have ne: "six_objects \<noteq> []" by (simp add: six_objects_def)
  have 5: "(5 :: nat) < length six_objects" by (simp add: length_six_objects)
  from getClip_loop_stored [OF 5, of 0 createClipObjects]
  have "array_get (type (getClip_loop six_objects 0 createClipObjects)) 5 = Some 2"
    by (simp add: six_objects_5 Type_def)
  with getClip_loop_lengths [OF ne, of 0 createClipObjects] 5 show ?thesis
    by (simp add: getClip_fresh createClipObjects_lengths length_six_objects)
qed

text \<open>
  C9: compiling the one clip object of the scenario (a plane, not inverted, at the
  origin, axis (1, 0, 0), angle 0, scale (1, 1, 1)) into a fresh array gives \<open>count = 1\<close>,
  \<open>type = [1, 1, 1, 1, 1]\<close> and the rotation slots 0 to 3 equal to (0, 0, 0, 1).
\<close>

theorem compile_scenario:
  "count (clip_objects (getClip \<lparr>props_variant = v, props_objects = [plane_object]\<rparr> None)) = 1 \<and>
   type (clip_objects (getClip \<lparr>props_variant = v, props_objects = [plane_object]\<rparr> None)) =
     [Some 1, Some 1, Some 1, Some 1, Some 1] \<and>
   take 4 (rotation
     (clip_objects (getClip \<lparr>props_variant = v, props_objects = [plane_object]\<rparr> None))) =
     [Some 0, Some 0, Some 0, Some 1]"
proof -
  have q: "Quat_setAxisAngle (axis (p_rotation plane_object))
      (degToRad (angle (p_rotation plane_object))) = (0, 0, 0, 1)"
    by (simp add: plane_object_def Quat_setAxisAngle_def degToRad_def)
  have ty: "type (getClip_loop [plane_object] 0 createClipObjects) =
      [Some 1, Some 1, Some 1, Some 1, Some 1]"
    by (simp add: createClipObjects_def array_set_def plane_object_def Type_def numeral_eq_Suc)
  have "rotation (getClip_loop [plane_object] 0 createClipObjects) =
      Quat_toArray (0, 0, 0, 1) (replicate 20 (Some 0)) 0"
    by (simp add: q createClipObjects_def)
  then have ro: "take 4 (rotation (getClip_loop [plane_object] 0 createClipObjects)) =
      [Some 0, Some 0, Some 0, Some 1]"
    by (simp add: Quat_toArray_def array_set_def numeral_eq_Suc)
  show ?thesis
    unfolding getClip_fresh using ty ro by simp
qed

end
